theory Spec2Isabelle
  imports Complex_Main "HOL-Library.AList" "HOL-Library.Sublist"
begin

section \<open>PyVOLCANS: data model\<close>

text \<open>
  The embedding follows \<^verbatim>\<open>pyvolcans_func.py\<close>. A Python float is modelled by the real
  number it stands for, and comparisons are exact. The addition on the running sum of
  the Weight Normalizer, whose rounding decides between returning and raising, is a
  parameter of the model; the products and sums of the other components are exact.
  A raised exception is the \<open>Inl\<close> branch of a sum type. The module has one exception
  class of its own, \<^verbatim>\<open>PyvolcansError\<close>, which carries its message; the other
  constructors are the Python built-in exceptions that the modelled statements can raise.
\<close>

datatype error =
    PyvolcansError string
  | IndexError
  | KeyError string
  | TypeError
  | ShapeMismatch

text \<open>
  A dictionary of command-line weights: insertion-ordered, keys pairwise distinct,
  each value either a number or Python's \<^verbatim>\<open>None\<close>.
\<close>

type_synonym args_dict = "(string \<times> real option) list"

definition newline :: string where
  "newline = [CHR 0x0A]"

section \<open>Weight Normalizer\<close>

text \<open>\<^verbatim>\<open>all(value is None for value in args_dict.values())\<close>\<close>

definition no_values_set :: "args_dict \<Rightarrow> bool" where
  "no_values_set d = list_all (\<lambda>kv. snd kv = None) d"

text \<open>\<^verbatim>\<open>dict.fromkeys(args_dict.keys(), 0.2)\<close>: a new dictionary with the same keys.\<close>

definition fromkeys :: "args_dict \<Rightarrow> real \<Rightarrow> args_dict" where
  "fromkeys d x = map (\<lambda>kv. (fst kv, Some x)) d"

text \<open>
  The loop of \<^verbatim>\<open>set_weights_from_args\<close> over \<^verbatim>\<open>args_dict.items()\<close>. The second argument
  is the dictionary object itself, which the loop body overwrites by key; the third is
  \<^verbatim>\<open>sum_of_weights\<close>. The parameter \<open>fadd\<close> is the addition of \<^verbatim>\<open>sum_of_weights += value\<close>:
  the sum of two floats as the machine rounds it. Nothing is assumed about it.
\<close>

fun fill_loop ::
  "(real \<Rightarrow> real \<Rightarrow> real) \<Rightarrow> (string \<times> real option) list \<Rightarrow> args_dict \<Rightarrow> real
     \<Rightarrow> args_dict \<times> real" where
  "fill_loop fadd [] d s = (d, s)"
| "fill_loop fadd ((k, None) # items) d s = fill_loop fadd items (AList.update k (Some 0) d) s"
| "fill_loop fadd ((k, Some v) # items) d s = fill_loop fadd items d (fadd s v)"

text \<open>
  The message of the weight-sum failure. The parameter \<open>fmt\<close> is Python's formatting of
  a number inside an f-string.
\<close>

definition weight_sum_msg :: "(real \<Rightarrow> string) \<Rightarrow> real \<Rightarrow> string" where
  "weight_sum_msg fmt s = ''Sum of weights ('' @ fmt s @ '') is different from 1!''"

text \<open>
  \<^verbatim>\<open>set_weights_from_args\<close>. The first component is what the call returns or raises;
  the second is the state of the caller's dictionary object after the call. In the
  all-absent branch the local name is rebound to a new dictionary and the caller's
  object is not touched; in the other branch the caller's object is written in place
  and is also the object returned.
\<close>

definition set_weights_from_args ::
  "(real \<Rightarrow> real \<Rightarrow> real) \<Rightarrow> (real \<Rightarrow> string) \<Rightarrow> args_dict
     \<Rightarrow> (error + args_dict) \<times> args_dict" where
  "set_weights_from_args fadd fmt args =
     (if no_values_set args then (Inr (fromkeys args 0.2), args)
      else
        (let (args', sum_of_weights) = fill_loop fadd args args 0 in
         if sum_of_weights \<noteq> 1
         then (Inl (PyvolcansError (weight_sum_msg fmt sum_of_weights)), args')
         else (Inr args', args')))"

text \<open>The five criteria, in the order of the module's \<^verbatim>\<open>WEIGHTS\<close> dictionary.\<close>

definition criteria :: "string list" where
  "criteria = [''tectonic_setting'', ''geochemistry'', ''morphology'',
               ''eruption_size'', ''eruption_style'']"

text \<open>
  What the spec calls the filled mapping: the same keys in the same order, an absent
  value replaced by 0, an explicit value kept.
\<close>

definition filled :: "args_dict \<Rightarrow> args_dict" where
  "filled d = map (\<lambda>kv. (fst kv, Some (case snd kv of None \<Rightarrow> 0 | Some v \<Rightarrow> v))) d"

text \<open>The explicitly supplied values, in the order of the dictionary.\<close>

definition explicit_values :: "args_dict \<Rightarrow> real list" where
  "explicit_values d = List.map_filter snd d"

text \<open>
  The computed sum: the explicit values added one after the other, from the left,
  to 0, each addition rounded as \<open>fadd\<close> rounds it.
\<close>

definition computed_sum :: "(real \<Rightarrow> real \<Rightarrow> real) \<Rightarrow> args_dict \<Rightarrow> real" where
  "computed_sum fadd d = foldl fadd 0 (explicit_values d)"

text \<open>All values in the order of the dictionary, an absent one counted as 0.\<close>

definition all_values :: "args_dict \<Rightarrow> real list" where
  "all_values d = map (\<lambda>kv. case snd kv of None \<Rightarrow> 0 | Some v \<Rightarrow> v) d"

section \<open>Catalogue Index\<close>

text \<open>
  \<^verbatim>\<open>VOLCANO_NAMES\<close> is a table read without a header: column 0 is the name, column 1
  the country, column 2 the Smithsonian id. Its index is the default one, so the label
  of a row is its position. The table is a parameter of every function that reads the
  module-level constant.
\<close>

record volcano =
  name :: string
  country :: string
  smithsonian_id :: int

type_synonym catalogue = "volcano list"

text \<open>
  \<^verbatim>\<open>VOLCANO_NAMES.loc[mask]\<close>: the rows that satisfy the mask, each with its index label,
  in table order.
\<close>

definition loc :: "(volcano \<Rightarrow> bool) \<Rightarrow> catalogue \<Rightarrow> (nat \<times> volcano) list" where
  "loc P cat = filter (\<lambda>iv. P (snd iv)) (enumerate 0 cat)"

text \<open>
  Modelled from the documentation of \<^verbatim>\<open>fuzzywuzzy.process.extract\<close>, which is a library
  and not part of the repository: every choice is scored against the query, and the
  \<open>limit\<close> best are returned as (choice, score, key), best first, equal scores in the
  order of the choices. The scorer (\<^verbatim>\<open>fuzz.UQRatio\<close>) is a parameter.
\<close>

definition process_extract ::
  "(string \<Rightarrow> string \<Rightarrow> int) \<Rightarrow> string \<Rightarrow> string list \<Rightarrow> nat \<Rightarrow> (string \<times> int \<times> nat) list" where
  "process_extract scorer query choices limit =
     take limit
       (sort_key (\<lambda>m. - fst (snd m))
          (map (\<lambda>kc. (snd kc, scorer query (snd kc), fst kc)) (enumerate 0 choices)))"

text \<open>
  The rows that \<^verbatim>\<open>fuzzy_matching\<close> selects, \<^verbatim>\<open>VOLCANO_NAMES.iloc[match_idx]\<close>, before
  they are rendered as text.
\<close>

definition fuzzy_rows :: "(string \<Rightarrow> string \<Rightarrow> int) \<Rightarrow> catalogue \<Rightarrow> string \<Rightarrow> nat \<Rightarrow> volcano list" where
  "fuzzy_rows scorer cat volcano_name limit =
     (let matches = process_extract scorer volcano_name (map name cat) limit;
          match_idx = map (\<lambda>item. snd (snd item)) matches
      in map (\<lambda>i. cat ! i) match_idx)"

text \<open>
  \<^verbatim>\<open>fuzzy_matching\<close>. The parameter \<open>to_string\<close> is the rendering of the renamed table
  by \<^verbatim>\<open>DataFrame.to_string(index=False)\<close>.
\<close>

definition fuzzy_matching ::
  "(string \<Rightarrow> string \<Rightarrow> int) \<Rightarrow> (volcano list \<Rightarrow> string) \<Rightarrow> catalogue \<Rightarrow> string \<Rightarrow> nat \<Rightarrow> string" where
  "fuzzy_matching scorer to_string cat volcano_name limit =
     to_string (fuzzy_rows scorer cat volcano_name limit)"

definition not_found_msg :: "string \<Rightarrow> string \<Rightarrow> string" where
  "not_found_msg volcano_name name_suggestions =
     volcano_name @ '' not found! Did you mean:'' @ newline @ name_suggestions"

definition not_unique_msg :: "string \<Rightarrow> string \<Rightarrow> string" where
  "not_unique_msg volcano_name name_suggestions =
     ''Volcano name '' @ volcano_name @ '' is not unique. ''
       @ ''Please provide smithsonian id instead of name.'' @ newline @ name_suggestions"

text \<open>\<^verbatim>\<open>match_name\<close>; the suggestions are always asked for with the default limit 10.\<close>

definition match_name ::
  "(string \<Rightarrow> string \<Rightarrow> int) \<Rightarrow> (volcano list \<Rightarrow> string) \<Rightarrow> catalogue \<Rightarrow> string
     \<Rightarrow> error + (nat \<times> volcano) list" where
  "match_name scorer to_string cat volcano_name =
     (let matched_volcanoes = loc (\<lambda>v. name v = volcano_name) cat in
      if length matched_volcanoes = 0
      then Inl (PyvolcansError (not_found_msg volcano_name
                  (fuzzy_matching scorer to_string cat volcano_name 10)))
      else if length matched_volcanoes > 1
      then Inl (PyvolcansError (not_unique_msg volcano_name
                  (fuzzy_matching scorer to_string cat volcano_name 10)))
      else Inr matched_volcanoes)"

text \<open>\<^verbatim>\<open>frame.index[0]\<close>: the label of the first row; an empty index raises.\<close>

definition index0 :: "(nat \<times> volcano) list \<Rightarrow> error + nat" where
  "index0 rows = (case rows of [] \<Rightarrow> Inl IndexError | iv # _ \<Rightarrow> Inr (fst iv))"

definition number_msg :: string where
  "number_msg = ''Volcano number does not exist. ''
     @ ''Please provide a non-zero, positive, six digits number. To check for ''
     @ ''existing volcano numbers (VNUM), please visit www.volcano.si.edu''"

definition get_volcano_idx_from_number :: "catalogue \<Rightarrow> int \<Rightarrow> error + nat" where
  "get_volcano_idx_from_number cat volcano_number =
     (let volcano_idx = loc (\<lambda>v. smithsonian_id v = volcano_number) cat in
      if volcano_idx = [] then Inl (PyvolcansError number_msg)
      else index0 volcano_idx)"

definition get_volcano_idx_from_name ::
  "(string \<Rightarrow> string \<Rightarrow> int) \<Rightarrow> (volcano list \<Rightarrow> string) \<Rightarrow> catalogue \<Rightarrow> string \<Rightarrow> error + nat" where
  "get_volcano_idx_from_name scorer to_string cat volcano_name =
     (case match_name scorer to_string cat volcano_name of
        Inl e \<Rightarrow> Inl e
      | Inr matched_volcanoes \<Rightarrow> index0 matched_volcanoes)"

text \<open>
  \<^verbatim>\<open>frame.iloc[i, col]\<close>: a positional read. A negative position counts from the end;
  a position outside the table raises \<^verbatim>\<open>IndexError\<close>.
\<close>

definition iloc :: "'a list \<Rightarrow> int \<Rightarrow> error + 'a" where
  "iloc xs i =
     (if int (length xs) \<le> i \<or> i < - int (length xs) then Inl IndexError
      else if i < 0 then Inr (xs ! nat (int (length xs) + i))
      else Inr (xs ! nat i))"

definition get_volcano_name_from_idx :: "catalogue \<Rightarrow> int \<Rightarrow> error + string" where
  "get_volcano_name_from_idx cat volcano_idx =
     (case iloc cat volcano_idx of Inl e \<Rightarrow> Inl e | Inr v \<Rightarrow> Inr (name v))"

text \<open>
  The module has no function from an index to the Smithsonian id; the read is written
  inline in \<^verbatim>\<open>get_analogies\<close> as \<^verbatim>\<open>VOLCANO_NAMES.iloc[top_idx[1], 2]\<close>.
\<close>

definition vnum_from_idx :: "catalogue \<Rightarrow> int \<Rightarrow> error + int" where
  "vnum_from_idx cat volcano_idx =
     (case iloc cat volcano_idx of Inl e \<Rightarrow> Inl e | Inr v \<Rightarrow> Inr (smithsonian_id v))"

section \<open>Weighted Analogy Combiner\<close>

text \<open>A two-dimensional array of floats, as a list of rows.\<close>

type_synonym matrix = "real list list"






text \<open>Sequencing: the first exception raised ends the computation.\<close>

definition bind_err :: "error + 'a \<Rightarrow> ('a \<Rightarrow> error + 'b) \<Rightarrow> error + 'b" where
  "bind_err r f = (case r of Inl e \<Rightarrow> Inl e | Inr v \<Rightarrow> f v)"




section \<open>Percentile Evaluator\<close>

text \<open>
  Modelled from the documentation of \<^verbatim>\<open>numpy.percentile\<close> with
  \<^verbatim>\<open>interpolation='midpoint'\<close>, which is a library and not part of the repository:
  the \<open>q\<close>-th percentile of \<open>n\<close> values lies at position \<open>q * (n - 1) / 100\<close> of the
  sorted values; at a whole position it is the value there, between two positions it is
  the mean of the two neighbours.
\<close>

definition np_percentile_midpoint :: "real list \<Rightarrow> nat \<Rightarrow> real" where
  "np_percentile_midpoint a q =
     (let s = sort a; pos = q * (length a - 1); below = pos div 100
      in if pos mod 100 = 0 then s ! below else (s ! below + s ! (below + 1)) / 2)"

text \<open>\<^verbatim>\<open>argmin\<close>: the position of the first occurrence of the least value.\<close>

definition np_argmin :: "real list \<Rightarrow> nat" where
  "np_argmin xs = length (takeWhile (\<lambda>x. x \<noteq> Min (set xs)) xs)"

text \<open>\<^verbatim>\<open>matrix[i,]\<close> and \<^verbatim>\<open>values[i]\<close> for an index that is not negative.\<close>

definition getrow :: "matrix \<Rightarrow> nat \<Rightarrow> error + real list" where
  "getrow m i = (if i < length m then Inr (m ! i) else Inl IndexError)"

definition getcell :: "real list \<Rightarrow> nat \<Rightarrow> error + real" where
  "getcell xs i = (if i < length xs then Inr (xs ! i) else Inl IndexError)"

text \<open>\<^verbatim>\<open>np.linspace(0, 100, 101)\<close>: the percentiles 0, 1, ..., 100.\<close>

definition percentile_points :: "nat list" where
  "percentile_points = [0..<101]"

text \<open>
  \<^verbatim>\<open>get_analogy_percentile\<close>. Both volcanoes are resolved by name; the percentiles are
  computed before the a priori value is read from the row.
\<close>

definition get_analogy_percentile ::
  "(string \<Rightarrow> string \<Rightarrow> int) \<Rightarrow> (volcano list \<Rightarrow> string) \<Rightarrow> catalogue \<Rightarrow> string \<Rightarrow> string
     \<Rightarrow> matrix \<Rightarrow> error + nat" where
  "get_analogy_percentile scorer to_string cat my_volcano apriori_volcano weighted_analogy_matrix =
     bind_err (get_volcano_idx_from_name scorer to_string cat my_volcano) (\<lambda>my_volcano_idx.
     bind_err (get_volcano_idx_from_name scorer to_string cat apriori_volcano) (\<lambda>apriori_volcano_idx.
     bind_err (getrow weighted_analogy_matrix my_volcano_idx) (\<lambda>my_analogy_values.
       let analogy_percentiles = map (np_percentile_midpoint my_analogy_values) percentile_points
       in bind_err (getcell my_analogy_values apriori_volcano_idx) (\<lambda>apriori_value.
            Inr (np_argmin (map (\<lambda>p. \<bar>p - apriori_value\<bar>) analogy_percentiles))))))"

section \<open>Analogue Ranker\<close>

text \<open>
  The target of \<^verbatim>\<open>get_analogies\<close> is a name when it is a \<^verbatim>\<open>str\<close> and is taken for a
  Smithsonian id otherwise.
\<close>

datatype volcano_ref = Name string | Number int

text \<open>
  Modelled from the documentation of \<^verbatim>\<open>numpy.argsort\<close>, which is a library and not part
  of the repository: the positions of the values in ascending order of value. Equal
  values are kept in position order here; numpy's default sort does not promise an order
  among them, and the results below use only that the positions are a permutation
  ordered by value.
\<close>

definition np_argsort :: "real list \<Rightarrow> nat list" where
  "np_argsort xs = sort_key (\<lambda>i. xs ! i) [0..<length xs]"

text \<open>
  The slice \<^verbatim>\<open>a[start:]\<close>: a negative start counts from the end and is clipped at the
  beginning, so \<^verbatim>\<open>a[-0:]\<close> is the whole array.
\<close>

definition slice_from :: "int \<Rightarrow> 'a list \<Rightarrow> 'a list" where
  "slice_from start xs =
     (if start < 0 then drop (nat (max 0 (start + int (length xs)))) xs
      else drop (nat start) xs)"

text \<open>\<^verbatim>\<open>VOLCANO_NAMES.iloc[top_idx]\<close>: the rows at the listed positions, all of which must exist.\<close>

definition iloc_rows :: "catalogue \<Rightarrow> nat list \<Rightarrow> error + volcano list" where
  "iloc_rows cat idxs =
     (if list_all (\<lambda>i. i < length cat) idxs then Inr (map (\<lambda>i. cat ! i) idxs)
      else Inl IndexError)"

text \<open>\<^verbatim>\<open>top_idx[i]\<close> for an index that is not negative.\<close>

definition getidx :: "nat list \<Rightarrow> nat \<Rightarrow> error + nat" where
  "getidx xs i = (if i < length xs then Inr (xs ! i) else Inl IndexError)"

text \<open>
  What a call of \<^verbatim>\<open>get_analogies\<close> that reaches its output does: \<open>printed\<close> is the
  result table (the catalogue row and its analogy score, best first) that is written
  to standard output and handed to \<^verbatim>\<open>write_csv\<close>; \<open>opened\<close> is the Smithsonian id in
  the address opened afterwards, or the exception raised by \<^verbatim>\<open>top_idx[1]\<close> when the
  table has fewer than two rows. The function itself returns nothing.
\<close>

record analogies_output =
  printed :: "(volcano \<times> real) list"
  opened :: "error + int"

definition resolve_volcano ::
  "(string \<Rightarrow> string \<Rightarrow> int) \<Rightarrow> (volcano list \<Rightarrow> string) \<Rightarrow> catalogue \<Rightarrow> volcano_ref \<Rightarrow> error + nat" where
  "resolve_volcano scorer to_string cat my_volcano =
     (case my_volcano of
        Name s \<Rightarrow> get_volcano_idx_from_name scorer to_string cat s
      | Number n \<Rightarrow> get_volcano_idx_from_number cat n)"

definition get_analogies ::
  "(string \<Rightarrow> string \<Rightarrow> int) \<Rightarrow> (volcano list \<Rightarrow> string) \<Rightarrow> catalogue \<Rightarrow> volcano_ref \<Rightarrow> matrix \<Rightarrow> int
     \<Rightarrow> error + analogies_output" where
  "get_analogies scorer to_string cat my_volcano weighted_analogy_matrix count =
     bind_err (resolve_volcano scorer to_string cat my_volcano) (\<lambda>volcano_idx.
     bind_err (getrow weighted_analogy_matrix volcano_idx) (\<lambda>my_volcano_analogies.
       let count = count + 1;
           top_idx = rev (slice_from (- count) (np_argsort my_volcano_analogies));
           top_analogies = map (\<lambda>i. my_volcano_analogies ! i) top_idx
       in bind_err (iloc_rows cat top_idx) (\<lambda>rows.
          bind_err (get_volcano_name_from_idx cat (int volcano_idx)) (\<lambda>volcano_name_csv.
            Inr \<lparr>printed = zip rows top_analogies,
                 opened = bind_err (getidx top_idx 1) (\<lambda>i. vnum_from_idx cat (int i))\<rparr>))))"

section \<open>Example data\<close>

text \<open>
  The addition used in the examples. Their sums are of the kind that floats compute
  without rounding (\<open>0 + x\<close> and \<open>0.5 + 0.5\<close>).
\<close>

definition exact_add :: "real \<Rightarrow> real \<Rightarrow> real" where
  "exact_add a b = a + b"

text \<open>A number formatter with the shape of Python's, defined on the values used below.\<close>

definition py_format :: "real \<Rightarrow> string" where
  "py_format x = (if x = 1 then ''1.0'' else if x = 0.99 then ''0.99''
                  else if x = 0.5 then ''0.5'' else ''?'')"

definition absent_weights :: args_dict where
  "absent_weights = map (\<lambda>k. (k, None)) criteria"

definition half_weights :: args_dict where
  "half_weights = [(''tectonic_setting'', Some 0.5), (''geochemistry'', Some 0.5),
                   (''morphology'', None), (''eruption_size'', None),
                   (''eruption_style'', None)]"

definition short_weights :: args_dict where
  "short_weights = [(''tectonic_setting'', Some 0.99), (''geochemistry'', None),
                    (''morphology'', None), (''eruption_size'', None),
                    (''eruption_style'', None)]"

definition demo_catalogue :: catalogue where
  "demo_catalogue =
     [\<lparr>name = ''Etna'', country = ''Italy'', smithsonian_id = 211060\<rparr>,
      \<lparr>name = ''Fuego'', country = ''Guatemala'', smithsonian_id = 342090\<rparr>,
      \<lparr>name = ''Hekla'', country = ''Iceland'', smithsonian_id = 372070\<rparr>,
      \<lparr>name = ''Fuego'', country = ''Spain'', smithsonian_id = 383060\<rparr>]"

text \<open>A stand-in for the fuzzy scorer: how many characters of the choice occur in the query.\<close>

definition demo_scorer :: "string \<Rightarrow> string \<Rightarrow> int" where
  "demo_scorer query choice = int (length (filter (\<lambda>c. c \<in> set query) choice))"

text \<open>A stand-in for the table rendering: one name per line.\<close>

definition names_to_string :: "volcano list \<Rightarrow> string" where
  "names_to_string rows = concat (map (\<lambda>v. name v @ newline) rows)"






definition demo_matrix :: matrix where
  "demo_matrix = [[1, 0.8, 0.3, 0.2], [0.8, 1, 0.1, 0.4], [0.3, 0.1, 1, 0.5], [0.2, 0.4, 0.5, 1]]"

definition flat_matrix :: matrix where
  "flat_matrix = [[1, 1, 1, 1], [1, 1, 0.3, 0.2], [1, 0.3, 1, 0.5], [1, 0.2, 0.5, 1]]"

section \<open>Weight Normalizer: results\<close>

lemma map_of_fromkeys:
  "k \<in> fst ` set d \<Longrightarrow> map_of (fromkeys d x) k = Some (Some x)"
  by (induction d) (auto simp: fromkeys_def)

text \<open>
  C3. When every value of the weight mapping is absent, the Weight Normalizer does not
  raise: it returns a mapping with the same keys in which every criterion has the
  weight 0.2.
\<close>

theorem C3_all_absent_uniform:
  assumes "no_values_set args"
  shows "fst (set_weights_from_args fadd fmt args) = Inr (fromkeys args 0.2)
       \<and> map fst (fromkeys args 0.2) = map fst args
       \<and> (\<forall>k \<in> fst ` set args. map_of (fromkeys args 0.2) k = Some (Some 0.2))"
proof -
  have "fst (set_weights_from_args fadd fmt args) = Inr (fromkeys args 0.2)"
    using assms by (simp add: set_weights_from_args_def)
  moreover have "map fst (fromkeys args 0.2) = map fst args"
    by (simp add: fromkeys_def)
  ultimately show ?thesis
    by (simp add: map_of_fromkeys)
qed

theorem C3_all_absent_uniform_witness:
  "no_values_set absent_weights
   \<and> fst (set_weights_from_args exact_add py_format absent_weights)
       = Inr [(''tectonic_setting'', Some 0.2), (''geochemistry'', Some 0.2),
              (''morphology'', Some 0.2), (''eruption_size'', Some 0.2),
              (''eruption_style'', Some 0.2)]
   \<and> map_of (fromkeys absent_weights 0.2) ''morphology'' = Some (Some 0.2)"
proof -
  have h: "no_values_set absent_weights"
    by (simp add: no_values_set_def absent_weights_def criteria_def)
  have k: "''morphology'' \<in> fst ` set absent_weights"
    by (simp add: absent_weights_def criteria_def)
  from C3_all_absent_uniform [OF h, of exact_add py_format] k h show ?thesis
    by (simp add: fromkeys_def absent_weights_def criteria_def)
qed

lemma update_middle:
  "k \<notin> fst ` set pre \<Longrightarrow> AList.update k v (pre @ (k, x) # rest) = pre @ (k, v) # rest"
  by (induction pre) auto

text \<open>
  The loop invariant: the entries already visited are filled, the rest of the
  dictionary is as it was, and the running sum has taken in, from the left, the
  explicit values seen so far.
\<close>

lemma fill_loop_general:
  "distinct (map fst (pre @ items)) \<Longrightarrow>
   fill_loop fadd items (pre @ items) s
     = (pre @ filled items, foldl fadd s (explicit_values items))"
proof (induction items arbitrary: pre s)
  case Nil
  then show ?case by (simp add: filled_def explicit_values_def map_filter_simps)
next
  case (Cons kv items)
  obtain k v where kv: "kv = (k, v)" by (cases kv)
  from Cons.prems kv have notin: "k \<notin> fst ` set pre" by auto
  from Cons.prems kv have d: "\<And>y. distinct (map fst ((pre @ [(k, y)]) @ items))" by auto
  show ?case
  proof (cases v)
    case None
    have "fill_loop fadd (kv # items) (pre @ kv # items) s
          = fill_loop fadd items ((pre @ [(k, Some 0)]) @ items) s"
      using None kv update_middle [OF notin] by simp
    also have "\<dots> = ((pre @ [(k, Some 0)]) @ filled items,
                       foldl fadd s (explicit_values items))"
      by (rule Cons.IH [OF d])
    finally show ?thesis
      using None kv by (simp add: filled_def explicit_values_def map_filter_simps)
  next
    case (Some x)
    have "fill_loop fadd (kv # items) (pre @ kv # items) s
          = fill_loop fadd items ((pre @ [(k, Some x)]) @ items) (fadd s x)"
      using Some kv by simp
    also have "\<dots> = ((pre @ [(k, Some x)]) @ filled items,
                       foldl fadd (fadd s x) (explicit_values items))"
      by (rule Cons.IH [OF d])
    finally show ?thesis
      using Some kv by (simp add: filled_def explicit_values_def map_filter_simps)
  qed
qed

lemma fill_loop_whole:
  "distinct (map fst args) \<Longrightarrow>
   fill_loop fadd args args 0 = (filled args, computed_sum fadd args)"
  using fill_loop_general [of "[]" args fadd 0] by (simp add: computed_sum_def)

text \<open>
  Leaving the absent values out of the sum, as the loop does, is adding them as 0,
  when adding 0 changes nothing (as it is for floats).
\<close>

lemma foldl_skip_absent:
  "\<forall>x. fadd x 0 = x \<Longrightarrow>
   foldl fadd s (explicit_values d) = foldl fadd s (all_values d)"
proof (induction d arbitrary: s)
  case Nil
  then show ?case by (simp add: explicit_values_def all_values_def map_filter_simps)
next
  case (Cons kv d)
  from Cons.IH [OF Cons.prems]
  have ih: "\<And>s. foldl fadd s (List.map_filter snd d)
                = foldl fadd s (map (\<lambda>kv. case snd kv of None \<Rightarrow> 0 | Some v \<Rightarrow> v) d)"
    by (simp add: explicit_values_def all_values_def)
  show ?case
    using Cons.prems ih
    by (cases "snd kv") (simp_all add: explicit_values_def all_values_def map_filter_simps)
qed

lemma sublist_weight_sum_msg: "sublist (fmt s) (weight_sum_msg fmt s)"
  unfolding weight_sum_msg_def by (rule sublist_appendI)

lemma filled_lookup:
  "distinct (map fst d) \<Longrightarrow> (k, v) \<in> set d \<Longrightarrow>
   map_of (filled d) k = Some (Some (case v of None \<Rightarrow> 0 | Some x \<Rightarrow> x))"
  by (induction d) (auto simp: filled_def rev_image_eqI)

text \<open>
  C2. When some value is explicitly supplied, every absent value is replaced by 0 and
  the explicit values are kept (\<open>filled\<close>). The sum is the one the program computes:
  the explicit values added from the left to 0, with whatever rounding the float
  addition \<open>fadd\<close> has; it is the sum of all values with the absent ones counted as 0
  whenever adding 0 changes nothing. If this sum is exactly 1 the filled mapping is
  returned; for any other sum the call raises the module's error, whose message
  contains the formatted sum.
\<close>

theorem C2_explicit_weights:
  assumes "\<not> no_values_set args" and "distinct (map fst args)"
  shows "(computed_sum fadd args = 1 \<longrightarrow>
            fst (set_weights_from_args fadd fmt args) = Inr (filled args))
       \<and> (computed_sum fadd args \<noteq> 1 \<longrightarrow>
            fst (set_weights_from_args fadd fmt args)
              = Inl (PyvolcansError (weight_sum_msg fmt (computed_sum fadd args)))
            \<and> sublist (fmt (computed_sum fadd args))
                 (weight_sum_msg fmt (computed_sum fadd args)))
       \<and> ((\<forall>x. fadd x 0 = x) \<longrightarrow>
            computed_sum fadd args = foldl fadd 0 (all_values args))
       \<and> map fst (filled args) = map fst args
       \<and> (\<forall>kv \<in> set args. map_of (filled args) (fst kv)
              = Some (Some (case snd kv of None \<Rightarrow> 0 | Some x \<Rightarrow> x)))"
proof -
  have loop: "fill_loop fadd args args 0 = (filled args, computed_sum fadd args)"
    using assms(2) by (rule fill_loop_whole)
  have one: "computed_sum fadd args = 1 \<longrightarrow>
               fst (set_weights_from_args fadd fmt args) = Inr (filled args)"
    using assms(1) loop by (simp add: set_weights_from_args_def)
  have other: "computed_sum fadd args \<noteq> 1 \<longrightarrow>
                 fst (set_weights_from_args fadd fmt args)
                   = Inl (PyvolcansError (weight_sum_msg fmt (computed_sum fadd args)))"
    using assms(1) loop by (simp add: set_weights_from_args_def)
  have zeros: "(\<forall>x. fadd x 0 = x) \<longrightarrow>
                 computed_sum fadd args = foldl fadd 0 (all_values args)"
    unfolding computed_sum_def using foldl_skip_absent [of fadd 0 args] by blast
  have keys: "map fst (filled args) = map fst args"
    by (simp add: filled_def)
  have vals: "\<forall>kv \<in> set args. map_of (filled args) (fst kv)
                = Some (Some (case snd kv of None \<Rightarrow> 0 | Some x \<Rightarrow> x))"
    using filled_lookup [OF assms(2)] by auto
  from one other zeros keys vals sublist_weight_sum_msg show ?thesis by blast
qed

theorem C2_explicit_weights_witness:
  "\<not> no_values_set half_weights \<and> distinct (map fst half_weights)
   \<and> computed_sum exact_add half_weights = 1
   \<and> foldl exact_add 0 (all_values half_weights) = 1
   \<and> fst (set_weights_from_args exact_add py_format half_weights)
       = Inr [(''tectonic_setting'', Some 0.5), (''geochemistry'', Some 0.5),
              (''morphology'', Some 0), (''eruption_size'', Some 0),
              (''eruption_style'', Some 0)]
   \<and> \<not> no_values_set short_weights \<and> distinct (map fst short_weights)
   \<and> computed_sum exact_add short_weights \<noteq> 1
   \<and> fst (set_weights_from_args exact_add py_format short_weights)
       = Inl (PyvolcansError ''Sum of weights (0.99) is different from 1!'')"
proof -
  have a: "\<not> no_values_set half_weights" "distinct (map fst half_weights)"
    by (simp_all add: no_values_set_def half_weights_def)
  have b: "\<not> no_values_set short_weights" "distinct (map fst short_weights)"
    by (simp_all add: no_values_set_def short_weights_def)
  have z: "\<forall>x. exact_add x 0 = x"
    by (simp add: exact_add_def)
  have sa: "computed_sum exact_add half_weights = 1"
    by (simp add: computed_sum_def explicit_values_def map_filter_simps half_weights_def
        exact_add_def)
  have sb: "computed_sum exact_add short_weights = 0.99"
    by (simp add: computed_sum_def explicit_values_def map_filter_simps short_weights_def
        exact_add_def)
  have fa: "filled half_weights
              = [(''tectonic_setting'', Some 0.5), (''geochemistry'', Some 0.5),
                 (''morphology'', Some 0), (''eruption_size'', Some 0),
                 (''eruption_style'', Some 0)]"
    by (simp add: filled_def half_weights_def)
  have m: "weight_sum_msg py_format 0.99 = ''Sum of weights (0.99) is different from 1!''"
    by (simp add: weight_sum_msg_def py_format_def)
  from C2_explicit_weights [OF a, of exact_add py_format]
    C2_explicit_weights [OF b, of exact_add py_format]
  show ?thesis
    using a b z sa sb fa m by simp
qed

text \<open>
  C10, as stated, fails: with an explicit value present the call overwrites the absent
  entries of the caller's own dictionary.
\<close>

theorem C10_argument_mutated:
  "snd (set_weights_from_args exact_add py_format half_weights) \<noteq> half_weights"
  by (simp add: set_weights_from_args_def no_values_set_def half_weights_def)

text \<open>
  C10, amended. The call has no effect other than on its argument. When every value is
  absent the caller's mapping is left as it was. Otherwise each absent value of the
  caller's mapping is overwritten with 0 in place and the explicit values stay, whether
  the call then returns or raises.
\<close>

theorem C10_effect_on_argument:
  assumes "distinct (map fst args)"
  shows "snd (set_weights_from_args fadd fmt args)
           = (if no_values_set args then args else filled args)"
proof (cases "no_values_set args")
  case True
  then show ?thesis by (simp add: set_weights_from_args_def)
next
  case False
  have "fill_loop fadd args args 0 = (filled args, computed_sum fadd args)"
    using assms by (rule fill_loop_whole)
  with False show ?thesis by (simp add: set_weights_from_args_def)
qed

theorem C10_effect_on_argument_witness:
  "distinct (map fst short_weights) \<and> distinct (map fst absent_weights)
   \<and> snd (set_weights_from_args exact_add py_format short_weights)
       = [(''tectonic_setting'', Some 0.99), (''geochemistry'', Some 0),
          (''morphology'', Some 0), (''eruption_size'', Some 0),
          (''eruption_style'', Some 0)]
   \<and> snd (set_weights_from_args exact_add py_format absent_weights) = absent_weights"
proof -
  have a: "distinct (map fst short_weights)"
    by (simp add: short_weights_def)
  have b: "distinct (map fst absent_weights)"
    by (simp add: absent_weights_def criteria_def)
  have na: "\<not> no_values_set short_weights"
    by (simp add: no_values_set_def short_weights_def)
  have nb: "no_values_set absent_weights"
    by (simp add: no_values_set_def absent_weights_def criteria_def)
  have f: "filled short_weights
             = [(''tectonic_setting'', Some 0.99), (''geochemistry'', Some 0),
                (''morphology'', Some 0), (''eruption_size'', Some 0),
                (''eruption_style'', Some 0)]"
    by (simp add: filled_def short_weights_def)
  from C10_effect_on_argument [OF a, of exact_add py_format]
    C10_effect_on_argument [OF b, of exact_add py_format]
  show ?thesis using a b na nb f by simp
qed

section \<open>Catalogue Index: results\<close>

lemma loc_unique:
  assumes "i < length cat" and "P (cat ! i)"
    and "\<forall>j < length cat. P (cat ! j) \<longrightarrow> j = i"
  shows "loc P cat = [(i, cat ! i)]"
proof -
  have split: "cat = take i cat @ cat ! i # drop (Suc i) cat"
    using assms(1) by (simp add: id_take_nth_drop)
  have en: "enumerate 0 cat = enumerate 0 (take i cat) @ (i, cat ! i) # enumerate (Suc i) (drop (Suc i) cat)"
  proof -
    have "enumerate 0 cat = enumerate 0 (take i cat @ cat ! i # drop (Suc i) cat)"
      using split by simp
    also have "\<dots> = enumerate 0 (take i cat) @ enumerate (0 + length (take i cat)) (cat ! i # drop (Suc i) cat)"
      by (rule enumerate_append_eq)
    finally show ?thesis using assms(1) by (simp add: min_def)
  qed
  have before: "filter (\<lambda>iv. P (snd iv)) (enumerate 0 (take i cat)) = []"
  proof -
    have "\<not> P (snd iv)" if "iv \<in> set (enumerate 0 (take i cat))" for iv
    proof -
      from that have "fst iv < i" and "snd iv = cat ! fst iv"
        using assms(1) by (auto simp: in_set_enumerate_eq)
      moreover from this assms(1) have "fst iv < length cat" by simp
      ultimately show ?thesis using assms(3) by force
    qed
    then show ?thesis by (simp add: filter_empty_conv)
  qed
  have after: "filter (\<lambda>iv. P (snd iv)) (enumerate (Suc i) (drop (Suc i) cat)) = []"
  proof -
    have "\<not> P (snd iv)" if "iv \<in> set (enumerate (Suc i) (drop (Suc i) cat))" for iv
    proof -
      from that have "Suc i \<le> fst iv" and "fst iv < length cat"
        and "snd iv = cat ! fst iv"
        using assms(1) by (auto simp: in_set_enumerate_eq)
      then show ?thesis using assms(3) by force
    qed
    then show ?thesis by (simp add: filter_empty_conv)
  qed
  have "loc P cat = filter (\<lambda>iv. P (snd iv)) (enumerate 0 (take i cat) @ (i, cat ! i) # enumerate (Suc i) (drop (Suc i) cat))"
    unfolding loc_def using en by simp
  then show ?thesis
    by (simp add: before after assms(2))
qed

lemma loc_sound:
  "iv \<in> set (loc P cat) \<Longrightarrow> fst iv < length cat \<and> snd iv = cat ! fst iv \<and> P (snd iv)"
  by (auto simp: loc_def in_set_enumerate_eq)

lemma iloc_in: "0 \<le> i \<Longrightarrow> i < int (length xs) \<Longrightarrow> iloc xs i = Inr (xs ! nat i)"
  by (simp add: iloc_def)

lemma iloc_out: "int (length xs) \<le> i \<Longrightarrow> iloc xs i = Inl IndexError"
  by (simp add: iloc_def)













text \<open>
  C8. For a volcano whose name is unique in a catalogue with pairwise distinct
  Smithsonian ids, resolving its name and resolving its id give the same index, the
  position of its row.
\<close>

theorem C8_name_and_number_agree:
  assumes "i < length cat"
    and "\<forall>j < length cat. name (cat ! j) = name (cat ! i) \<longrightarrow> j = i"
    and "distinct (map smithsonian_id cat)"
  shows "get_volcano_idx_from_name scorer to_string cat (name (cat ! i)) = Inr i
       \<and> get_volcano_idx_from_number cat (smithsonian_id (cat ! i)) = Inr i"
proof -
  have byname: "loc (\<lambda>v. name v = name (cat ! i)) cat = [(i, cat ! i)]"
    using assms(1,2) by (intro loc_unique) auto
  have "\<forall>j < length cat. smithsonian_id (cat ! j) = smithsonian_id (cat ! i) \<longrightarrow> j = i"
    using assms(1,3) by (auto simp: distinct_conv_nth)
  then have bynum: "loc (\<lambda>v. smithsonian_id v = smithsonian_id (cat ! i)) cat = [(i, cat ! i)]"
    using assms(1) by (intro loc_unique) auto
  show ?thesis
    by (simp add: get_volcano_idx_from_name_def match_name_def get_volcano_idx_from_number_def
        byname bynum index0_def)
qed

theorem C8_name_and_number_agree_witness:
  "(0::nat) < length demo_catalogue
   \<and> length (filter (\<lambda>v. name v = ''Etna'') demo_catalogue) = 1
   \<and> distinct (map smithsonian_id demo_catalogue)
   \<and> get_volcano_idx_from_name demo_scorer names_to_string demo_catalogue ''Etna'' = Inr 0
   \<and> get_volcano_idx_from_number demo_catalogue 211060 = Inr 0"
proof -
  have h1: "0 < length demo_catalogue"
    by (simp add: demo_catalogue_def)
  have h2: "\<forall>j < length demo_catalogue.
              name (demo_catalogue ! j) = name (demo_catalogue ! 0) \<longrightarrow> j = 0"
    by (simp add: demo_catalogue_def less_Suc_eq numeral_nat)
  have h3: "distinct (map smithsonian_id demo_catalogue)"
    by (simp add: demo_catalogue_def)
  have e: "name (demo_catalogue ! 0) = ''Etna''" "smithsonian_id (demo_catalogue ! 0) = 211060"
    by (simp_all add: demo_catalogue_def)
  from C8_name_and_number_agree [OF h1 h2 h3, of demo_scorer names_to_string]
  show ?thesis using h1 h3 unfolding e by (simp add: demo_catalogue_def)
qed

text \<open>
  C9. An index at or beyond the catalogue size makes both reverse lookups fail with
  the out-of-range error of the positional read; an index from 0 up to the size
  returns the name, respectively the Smithsonian id, of the row at that position.
\<close>

theorem C9_reverse_lookup:
  "(int (length cat) \<le> i \<longrightarrow>
      get_volcano_name_from_idx cat i = Inl IndexError
      \<and> vnum_from_idx cat i = Inl IndexError)
   \<and> (0 \<le> i \<and> i < int (length cat) \<longrightarrow>
      get_volcano_name_from_idx cat i = Inr (name (cat ! nat i))
      \<and> vnum_from_idx cat i = Inr (smithsonian_id (cat ! nat i)))"
  by (simp add: get_volcano_name_from_idx_def vnum_from_idx_def iloc_in iloc_out)

theorem C9_reverse_lookup_witness:
  "int (length demo_catalogue) \<le> 4
   \<and> get_volcano_name_from_idx demo_catalogue 4 = Inl IndexError
   \<and> vnum_from_idx demo_catalogue 4 = Inl IndexError
   \<and> (0::int) \<le> 1 \<and> 1 < int (length demo_catalogue)
   \<and> get_volcano_name_from_idx demo_catalogue 1 = Inr ''Fuego''
   \<and> vnum_from_idx demo_catalogue 1 = Inr 342090"
proof -
  have n: "int (length demo_catalogue) = 4"
    by (simp add: demo_catalogue_def)
  have r: "name (demo_catalogue ! nat 1) = ''Fuego''"
    "smithsonian_id (demo_catalogue ! nat 1) = 342090"
    by (simp_all add: demo_catalogue_def)
  from C9_reverse_lookup [of demo_catalogue 4] C9_reverse_lookup [of demo_catalogue 1]
  show ?thesis unfolding n r by simp
qed

section \<open>Weighted Analogy Combiner: results\<close>


















section \<open>Percentile Evaluator: results\<close>

lemma percentile_points_le: "q \<in> set percentile_points \<Longrightarrow> q \<le> 100"
  by (simp only: percentile_points_def set_upt atLeastLessThan_iff) arith

lemma percentile_points_length: "length percentile_points = 101"
  by (simp add: percentile_points_def)

lemma sort_nth_mem: "i < length a \<Longrightarrow> sort a ! i \<in> set a"
  for a :: "real list"
  by (metis length_sort nth_mem set_sort)

lemma below_bound:
  assumes "pos \<le> 100 * k"
  shows "pos div 100 < Suc (k::nat)" and "pos mod 100 \<noteq> 0 \<Longrightarrow> Suc (pos div 100) < Suc k"
proof -
  from assms have le: "pos div 100 \<le> k" by simp
  then show "pos div 100 < Suc k" by simp
  show "Suc (pos div 100) < Suc k" if "pos mod 100 \<noteq> 0"
  proof (rule ccontr)
    assume "\<not> Suc (pos div 100) < Suc k"
    with le have "pos div 100 = k" by simp
    then have "pos = 100 * k + pos mod 100"
      using div_mult_mod_eq [of pos 100] by simp
    with assms that show False by simp
  qed
qed

lemma percentile_index:
  assumes "a \<noteq> []" and "q \<le> 100"
  shows "q * (length a - 1) div 100 < length a"
    and "q * (length a - 1) mod 100 \<noteq> 0 \<Longrightarrow> Suc (q * (length a - 1) div 100) < length a"
proof -
  define k where "k = length a - 1"
  have n: "length a = Suc k" using assms(1) by (simp add: k_def)
  have le: "q * k \<le> 100 * k" using assms(2) by (rule mult_le_mono1)
  show "q * (length a - 1) div 100 < length a"
    using below_bound(1) [OF le] by (simp add: n)
  show "Suc (q * (length a - 1) div 100) < length a" if "q * (length a - 1) mod 100 \<noteq> 0"
    using that below_bound(2) [OF le] by (simp add: n)
qed

lemma percentile_const:
  assumes "\<forall>x \<in> set a. x = v" and "a \<noteq> []" and "q \<le> 100"
  shows "np_percentile_midpoint a q = v"
proof -
  have v0: "sort a ! (q * (length a - 1) div 100) = v"
    using sort_nth_mem [OF percentile_index(1) [OF assms(2,3)]] assms(1) by blast
  have v1: "sort a ! Suc (q * (length a - 1) div 100) = v"
    if "q * (length a - 1) mod 100 \<noteq> 0"
    using sort_nth_mem [OF percentile_index(2) [OF assms(2,3) that]] assms(1) by blast
  show ?thesis
    using v0 v1 by (simp add: np_percentile_midpoint_def Let_def)
qed

lemma argmin_const:
  assumes "xs \<noteq> []" and "\<forall>x \<in> set xs. x = c"
  shows "np_argmin xs = 0"
proof -
  from assms obtain ys where xs: "xs = c # ys" by (cases xs) auto
  with assms(2) have "set xs = {c}" by auto
  then have "Min (set xs) = c" by simp
  then show ?thesis unfolding np_argmin_def by (simp add: xs)
qed

lemma percentile_flat_row:
  assumes "get_volcano_idx_from_name scorer to_string cat my_volcano = Inr t"
    and "get_volcano_idx_from_name scorer to_string cat apriori_volcano = Inr a"
    and "t < length M" and "a < length (M ! t)"
    and "\<forall>x \<in> set (M ! t). x = v"
  shows "get_analogy_percentile scorer to_string cat my_volcano apriori_volcano M = Inr 0"
proof -
  let ?row = "M ! t"
  have ne: "?row \<noteq> []" using assms(4) by auto
  have av: "?row ! a = v" using assms(4,5) by simp
  let ?percs = "map (np_percentile_midpoint ?row) percentile_points"
  have "\<forall>p \<in> set ?percs. p = v"
    using percentile_const [OF assms(5) ne] percentile_points_le by auto
  then have "\<forall>d \<in> set (map (\<lambda>p. \<bar>p - v\<bar>) ?percs). d = 0"
    by auto
  moreover have "map (\<lambda>p. \<bar>p - v\<bar>) ?percs \<noteq> []"
    using percentile_points_length by auto
  ultimately have "np_argmin (map (\<lambda>p. \<bar>p - v\<bar>) ?percs) = 0"
    by (intro argmin_const)
  then show ?thesis
    using assms(1-4) av
    by (simp add: get_analogy_percentile_def bind_err_def getrow_def getcell_def Let_def)
qed


lemma percentile_points_nth: "q \<le> 100 \<Longrightarrow> percentile_points ! q = q"
  unfolding percentile_points_def by (subst nth_upt) simp_all

lemma filter_once:
  assumes "t < length xs" and "P (xs ! t)" and "\<forall>j < length xs. j \<noteq> t \<longrightarrow> \<not> P (xs ! j)"
  shows "length (filter P xs) = 1"
proof -
  have "{i. i < length xs \<and> P (xs ! i)} = {t}" using assms by auto
  then show ?thesis by (simp add: length_filter_conv_card)
qed

lemma filter_twice:
  assumes "i < k" and "k < length xs" and "P (xs ! i)" and "P (xs ! k)"
  shows "2 \<le> length (filter P xs)"
proof -
  have "{i, k} \<subseteq> {i. i < length xs \<and> P (xs ! i)}" using assms by auto
  then have "card {i, k} \<le> card {i. i < length xs \<and> P (xs ! i)}"
    by (intro card_mono) simp_all
  moreover have "card {i, k} = 2" using assms(1) by simp
  ultimately show ?thesis by (simp add: length_filter_conv_card)
qed

lemma sort_strict_max:
  fixes row :: "real list"
  assumes "t < length row" and "\<forall>j < length row. j \<noteq> t \<longrightarrow> row ! j < row ! t"
  shows "sort row ! (length row - 1) = row ! t"
    and "\<forall>i < length row - 1. sort row ! i < row ! t"
proof -
  let ?s = "sort row" and ?n = "length row" and ?mx = "row ! t"
  have len: "length ?s = ?n" by simp
  have le: "?s ! i \<le> ?mx" if "i < ?n" for i
  proof -
    from that have "?s ! i \<in> set row" by (rule sort_nth_mem)
    then obtain j where "j < ?n" and "row ! j = ?s ! i" by (auto simp: in_set_conv_nth)
    with assms(2) show ?thesis by (cases "j = t") force+
  qed
  have "?mx \<in> set ?s" using assms(1) by simp
  then obtain k where "k < length ?s" and sk: "?s ! k = ?mx"
    unfolding in_set_conv_nth by blast
  then have k: "k < ?n" by simp
  have last_ge: "?s ! k \<le> ?s ! (?n - 1)"
    using k by (intro sorted_nth_mono) simp_all
  have last_le: "?s ! (?n - 1) \<le> ?mx" using assms(1) by (intro le) simp
  from last_ge last_le sk show top: "?s ! (?n - 1) = ?mx" by simp
  have once: "length (filter (\<lambda>x. x = ?mx) ?s) = 1"
  proof -
    have "length (filter (\<lambda>x. x = ?mx) row) = 1"
      using assms by (intro filter_once [of t]) auto
    moreover have "filter (\<lambda>x. x = ?mx) ?s = sort (filter (\<lambda>x. x = ?mx) row)"
      by (rule filter_sort)
    ultimately show ?thesis by simp
  qed
  show "\<forall>i < ?n - 1. ?s ! i < ?mx"
  proof (intro allI impI)
    fix i assume i: "i < ?n - 1"
    then have "?s ! i \<le> ?mx" by (intro le) simp
    moreover have "?s ! i \<noteq> ?mx"
    proof
      assume "?s ! i = ?mx"
      with i top have "2 \<le> length (filter (\<lambda>x. x = ?mx) ?s)"
        by (intro filter_twice [of i "?n - 1"]) simp_all
      with once show False by simp
    qed
    ultimately show "?s ! i < ?mx" by simp
  qed
qed

lemma percentile_top:
  "a \<noteq> [] \<Longrightarrow> np_percentile_midpoint a 100 = sort a ! (length a - 1)"
  by (simp add: np_percentile_midpoint_def)

lemma percentile_below_top:
  assumes "2 \<le> length a" and "q < 100"
    and top: "sort a ! (length a - 1) = mx"
    and rest: "\<forall>i < length a - 1. sort a ! i < mx"
  shows "np_percentile_midpoint a q < mx"
proof -
  define k where "k = length a - 1"
  define pos where "pos = q * k"
  have k: "0 < k" using assms(1) by (simp add: k_def)
  have "pos < 100 * k" unfolding pos_def using assms(2) k by simp
  then have b: "pos div 100 < k" by simp
  then have b1: "Suc (pos div 100) \<le> k" by simp
  have lo: "sort a ! (pos div 100) < mx" using rest b by (simp add: k_def)
  have hi: "sort a ! Suc (pos div 100) \<le> mx"
  proof (cases "Suc (pos div 100) = k")
    case True
    then show ?thesis using top by (simp add: k_def)
  next
    case False
    with b1 have "Suc (pos div 100) < k" by simp
    with rest show ?thesis by (simp add: k_def less_imp_le)
  qed
  from lo hi have mid: "(sort a ! (pos div 100) + sort a ! (pos div 100 + 1)) / 2 < mx" by simp
  have "np_percentile_midpoint a q
          = (if pos mod 100 = 0 then sort a ! (pos div 100)
             else (sort a ! (pos div 100) + sort a ! (pos div 100 + 1)) / 2)"
    unfolding np_percentile_midpoint_def Let_def k_def pos_def ..
  with lo mid show ?thesis by presburger
qed

lemma argmin_last:
  assumes "length xs = Suc k" and "xs ! k = 0" and "\<forall>i < k. 0 < xs ! i"
  shows "np_argmin xs = k"
proof -
  have nonneg: "0 \<le> y" if "y \<in> set xs" for y
  proof -
    from that obtain i where i: "i < Suc k" and y: "xs ! i = y"
      using assms(1) by (auto simp: in_set_conv_nth)
    show ?thesis
    proof (cases "i = k")
      case True
      with assms(2) y show ?thesis by simp
    next
      case False
      with i have "i < k" by simp
      with assms(3) y show ?thesis by force
    qed
  qed
  have "0 \<in> set xs" using assms(1,2) by (metis lessI nth_mem)
  with nonneg have m: "Min (set xs) = 0" by (intro Min_eqI) simp_all
  have "takeWhile (\<lambda>x. x \<noteq> 0) xs = take k xs"
    using assms by (intro takeWhile_eq_take_P_nth) force+
  then show ?thesis using assms(1) by (simp add: np_argmin_def m)
qed


lemma demo_idx:
  "get_volcano_idx_from_name demo_scorer names_to_string demo_catalogue ''Etna'' = Inr 0"
  "get_volcano_idx_from_name demo_scorer names_to_string demo_catalogue ''Hekla'' = Inr 2"
  by (simp_all add: get_volcano_idx_from_name_def match_name_def loc_def demo_catalogue_def
      index0_def)

text \<open>
  C5, as stated, fails: when every volcano of the catalogue is a perfect analogue of the
  target, all break-points coincide and the first of them, percentile 0, is returned.
\<close>

theorem C5_self_percentile_not_100:
  "get_analogy_percentile demo_scorer names_to_string demo_catalogue ''Etna'' ''Etna'' flat_matrix
     \<noteq> Inr 100"
proof -
  have "get_analogy_percentile demo_scorer names_to_string demo_catalogue ''Etna'' ''Etna''
          flat_matrix = Inr 0"
    by (rule percentile_flat_row [OF demo_idx(1) demo_idx(1), where v = 1])
       (simp_all add: flat_matrix_def)
  then show ?thesis by simp
qed

text \<open>
  C5, amended. When the target's row has at least two entries and its self-similarity
  is strictly greater than every other entry of the row, the Percentile Evaluator
  applied with the target itself as the a priori candidate returns 100.
\<close>

theorem C5_self_percentile:
  assumes "get_volcano_idx_from_name scorer to_string cat my_volcano = Inr t"
    and "t < length M" and "t < length (M ! t)" and "2 \<le> length (M ! t)"
    and "\<forall>j < length (M ! t). j \<noteq> t \<longrightarrow> M ! t ! j < M ! t ! t"
  shows "get_analogy_percentile scorer to_string cat my_volcano my_volcano M = Inr 100"
proof -
  let ?row = "M ! t"
  let ?mx = "?row ! t"
  let ?diffs = "map (\<lambda>p. \<bar>p - ?mx\<bar>) (map (np_percentile_midpoint ?row) percentile_points)"
  have ne: "?row \<noteq> []" using assms(3) by auto
  note top = sort_strict_max(1) [OF assms(3,5)]
  note rest = sort_strict_max(2) [OF assms(3,5)]
  have len: "length ?diffs = Suc 100" by (simp add: percentile_points_length)
  have nth: "?diffs ! q = \<bar>np_percentile_midpoint ?row q - ?mx\<bar>" if "q \<le> 100" for q
    using that by (simp add: percentile_points_length percentile_points_nth)
  have at_top: "?diffs ! 100 = 0"
    using nth [of 100] percentile_top [OF ne] top by simp
  have below: "\<forall>q < 100. 0 < ?diffs ! q"
  proof (intro allI impI)
    fix q :: nat assume q: "q < 100"
    from percentile_below_top [OF assms(4) q top rest]
    have "np_percentile_midpoint ?row q < ?mx" .
    then show "0 < ?diffs ! q" using nth [of q] q by simp
  qed
  have "np_argmin ?diffs = 100" using len at_top below by (rule argmin_last)
  then show ?thesis
    using assms(1-3)
    by (simp add: get_analogy_percentile_def bind_err_def getrow_def getcell_def Let_def)
qed

theorem C5_self_percentile_witness:
  "get_analogy_percentile demo_scorer names_to_string demo_catalogue ''Etna'' ''Etna'' demo_matrix
     = Inr 100"
proof -
  have r: "demo_matrix ! 0 = [1, 0.8, 0.3, 0.2]" by (simp add: demo_matrix_def)
  have a: "0 < length demo_matrix" "0 < length (demo_matrix ! 0)" "2 \<le> length (demo_matrix ! 0)"
    by (simp_all add: demo_matrix_def)
  have b: "\<forall>j < length (demo_matrix ! 0). j \<noteq> 0 \<longrightarrow> demo_matrix ! 0 ! j < demo_matrix ! 0 ! 0"
    unfolding r by (simp add: less_Suc_eq numeral_nat)
  from C5_self_percentile [OF demo_idx(1) a b] show ?thesis .
qed

text \<open>
  C6. When all entries of the target's row are equal, any two a priori candidates
  that resolve to a position of the row get the same percentile (it is 0).
\<close>

theorem C6_flat_row_same_percentile:
  assumes "get_volcano_idx_from_name scorer to_string cat my_volcano = Inr t"
    and "t < length M" and "\<forall>x \<in> set (M ! t). x = v"
    and "get_volcano_idx_from_name scorer to_string cat apriori1 = Inr a1"
    and "a1 < length (M ! t)"
    and "get_volcano_idx_from_name scorer to_string cat apriori2 = Inr a2"
    and "a2 < length (M ! t)"
  shows "get_analogy_percentile scorer to_string cat my_volcano apriori1 M
           = get_analogy_percentile scorer to_string cat my_volcano apriori2 M
       \<and> get_analogy_percentile scorer to_string cat my_volcano apriori1 M = Inr 0"
  using percentile_flat_row [OF assms(1,4,2,5,3)] percentile_flat_row [OF assms(1,6,2,7,3)]
  by simp

theorem C6_flat_row_same_percentile_witness:
  "get_analogy_percentile demo_scorer names_to_string demo_catalogue ''Etna'' ''Etna'' flat_matrix
     = get_analogy_percentile demo_scorer names_to_string demo_catalogue ''Etna'' ''Hekla'' flat_matrix
   \<and> get_analogy_percentile demo_scorer names_to_string demo_catalogue ''Etna'' ''Hekla'' flat_matrix
     = Inr 0"
proof -
  have a: "0 < length flat_matrix" "0 < length (flat_matrix ! 0)" "2 < length (flat_matrix ! 0)"
    by (simp_all add: flat_matrix_def)
  have f: "\<forall>x \<in> set (flat_matrix ! 0). x = 1" by (simp add: flat_matrix_def)
  from C6_flat_row_same_percentile [OF demo_idx(1) a(1) f demo_idx(1) a(2) demo_idx(2) a(3)]
    C6_flat_row_same_percentile [OF demo_idx(1) a(1) f demo_idx(2) a(3) demo_idx(1) a(2)]
  show ?thesis by simp
qed

section \<open>Analogue Ranker: results\<close>

lemma argsort_set: "set (np_argsort xs) = {0..<length xs}"
  by (simp add: np_argsort_def)

lemma argsort_distinct: "distinct (np_argsort xs)"
  by (simp add: np_argsort_def)

lemma argsort_length: "length (np_argsort xs) = length xs"
  by (simp add: np_argsort_def)

lemma argsort_sorted: "sorted (map (\<lambda>i. xs ! i) (np_argsort xs))"
  unfolding np_argsort_def by (rule sorted_sort_key)

lemma slice_last: "0 < c \<Longrightarrow> slice_from (- c) xs = drop (length xs - nat c) xs"
proof -
  assume c: "0 < c"
  have "nat (max 0 (- c + int (length xs))) = length xs - nat c"
    using c by (simp add: max_def nat_diff_distrib')
  with c show ?thesis by (simp add: slice_from_def)
qed

lemma argsort_last:
  assumes "t < length xs" and "\<forall>j < length xs. j \<noteq> t \<longrightarrow> xs ! j < xs ! t"
  shows "last (np_argsort xs) = t"
proof (rule ccontr)
  let ?s = "np_argsort xs"
  assume neq: "last ?s \<noteq> t"
  have ne: "?s \<noteq> []" using assms(1) argsort_length [of xs] by auto
  have "t \<in> set ?s" using assms(1) by (simp add: argsort_set)
  then obtain p where p: "p < length ?s" and sp: "?s ! p = t"
    unfolding in_set_conv_nth by blast
  have l: "last ?s = ?s ! (length ?s - 1)" using ne by (rule last_conv_nth)
  have "last ?s \<in> set ?s" using ne by simp
  then have lt: "last ?s < length xs" by (simp add: argsort_set)
  have "map (\<lambda>i. xs ! i) ?s ! p \<le> map (\<lambda>i. xs ! i) ?s ! (length ?s - 1)"
    using p by (intro sorted_nth_mono [OF argsort_sorted]) simp_all
  then have "xs ! t \<le> xs ! last ?s" using p sp l by simp
  moreover have "xs ! last ?s < xs ! t" using assms(2) lt neq by simp
  ultimately show False by simp
qed

lemma zip_two_maps: "zip (map f xs) (map g xs) = map (\<lambda>x. (f x, g x)) xs"
  by (induction xs) simp_all

lemma distinct_ids:
  fixes cat :: catalogue
  assumes "distinct (map smithsonian_id cat)" and "distinct idxs"
    and "\<forall>i \<in> set idxs. i < length cat"
  shows "distinct (map (\<lambda>i. smithsonian_id (cat ! i)) idxs)"
proof -
  have "inj_on (\<lambda>i. smithsonian_id (cat ! i)) (set idxs)"
  proof (rule inj_onI)
    fix i j assume "i \<in> set idxs" "j \<in> set idxs"
      and e: "smithsonian_id (cat ! i) = smithsonian_id (cat ! j)"
    with assms(3) have ij: "i < length cat" "j < length cat" by auto
    with e have "map smithsonian_id cat ! i = map smithsonian_id cat ! j" by simp
    with nth_eq_iff_index_eq [OF assms(1), of i j] ij show "i = j" by simp
  qed
  with assms(2) show ?thesis by (simp add: distinct_map)
qed

lemma resolve_in_range:
  "resolve_volcano scorer to_string cat my_volcano = Inr t \<Longrightarrow> t < length cat"
proof (cases my_volcano)
  case (Name s)
  assume r: "resolve_volcano scorer to_string cat my_volcano = Inr t"
  let ?m = "loc (\<lambda>v. name v = s) cat"
  from r Name have "index0 ?m = Inr t" and "?m \<noteq> []"
    by (auto simp: resolve_volcano_def get_volcano_idx_from_name_def match_name_def Let_def
        split: if_splits)
  then have "(t, snd (hd ?m)) \<in> set ?m"
    by (cases ?m) (auto simp: index0_def)
  from loc_sound [OF this] show ?thesis by simp
next
  case (Number n)
  assume r: "resolve_volcano scorer to_string cat my_volcano = Inr t"
  let ?m = "loc (\<lambda>v. smithsonian_id v = n) cat"
  from r Number have "index0 ?m = Inr t" and "?m \<noteq> []"
    by (auto simp: resolve_volcano_def get_volcano_idx_from_number_def Let_def
        split: if_splits)
  then have "(t, snd (hd ?m)) \<in> set ?m"
    by (cases ?m) (auto simp: index0_def)
  from loc_sound [OF this] show ?thesis by simp
qed


text \<open>
  The table of \<^verbatim>\<open>get_analogies\<close>, row by row, for a target that resolves and a matrix
  row aligned with the catalogue.
\<close>

lemma get_analogies_table:
  assumes "resolve_volcano scorer to_string cat my_volcano = Inr t"
    and "t < length M" and "length (M ! t) = length cat" and "0 \<le> N"
  defines "top_idx \<equiv> rev (drop (length cat - nat (N + 1)) (np_argsort (M ! t)))"
  shows "\<exists>out. get_analogies scorer to_string cat my_volcano M N = Inr out
           \<and> printed out = map (\<lambda>i. (cat ! i, M ! t ! i)) top_idx"
    and "length top_idx = min (nat N + 1) (length cat)"
    and "distinct top_idx" and "\<forall>i \<in> set top_idx. i < length cat"
    and "sorted (rev (map (\<lambda>i. M ! t ! i) top_idx))"
    and "\<forall>j < length cat. j \<noteq> t \<longrightarrow> M ! t ! j < M ! t ! t \<Longrightarrow> top_idx \<noteq> [] \<and> hd top_idx = t"
proof -
  let ?row = "M ! t"
  let ?s = "np_argsort ?row"
  let ?k = "length cat - nat (N + 1)"
  have tl: "t < length cat" using assms(1) by (rule resolve_in_range)
  have ls: "length ?s = length cat" by (simp add: argsort_length assms(3))
  have sl: "slice_from (- (N + 1)) ?s = drop ?k ?s"
    using assms(4) ls slice_last [of "N + 1" ?s] by simp
  show inr: "\<forall>i \<in> set top_idx. i < length cat"
  proof
    fix i assume "i \<in> set top_idx"
    then have "i \<in> set ?s" unfolding top_idx_def by (auto dest: in_set_dropD)
    then show "i < length cat" by (simp add: argsort_set assms(3))
  qed
  then have rows: "iloc_rows cat top_idx = Inr (map (\<lambda>i. cat ! i) top_idx)"
    by (simp add: iloc_rows_def list_all_iff)
  have nm: "get_volcano_name_from_idx cat (int t) = Inr (name (cat ! t))"
    using tl by (simp add: get_volcano_name_from_idx_def iloc_in)
  have "get_analogies scorer to_string cat my_volcano M N
          = Inr \<lparr>printed = zip (map (\<lambda>i. cat ! i) top_idx) (map (\<lambda>i. ?row ! i) top_idx),
                 opened = bind_err (getidx top_idx 1) (\<lambda>i. vnum_from_idx cat (int i))\<rparr>"
    using assms(1,2) rows nm sl
    by (simp add: get_analogies_def bind_err_def getrow_def Let_def top_idx_def)
  then show "\<exists>out. get_analogies scorer to_string cat my_volcano M N = Inr out
           \<and> printed out = map (\<lambda>i. (cat ! i, M ! t ! i)) top_idx"
    by (simp add: zip_two_maps)
  show "length top_idx = min (nat N + 1) (length cat)"
    using assms(4) ls by (simp add: top_idx_def nat_add_distrib min_def)
  show "distinct top_idx"
    by (simp add: top_idx_def argsort_distinct)
  have "sorted (drop ?k (map (\<lambda>i. ?row ! i) ?s))"
    using argsort_sorted [of ?row] by (rule sorted_wrt_drop)
  then show "sorted (rev (map (\<lambda>i. M ! t ! i) top_idx))"
    by (simp add: top_idx_def rev_map drop_map)
  show "top_idx \<noteq> [] \<and> hd top_idx = t"
    if strict: "\<forall>j < length cat. j \<noteq> t \<longrightarrow> M ! t ! j < M ! t ! t"
  proof -
    have k: "?k < length ?s" using assms(4) tl ls by simp
    then have ne: "drop ?k ?s \<noteq> []" by simp
    have "last ?s = t"
      using tl strict by (intro argsort_last) (simp_all add: assms(3))
    with k have "last (drop ?k ?s) = t" by (simp add: last_drop)
    with ne show ?thesis by (simp add: top_idx_def hd_rev)
  qed
qed

text \<open>
  C1, amended. For a target that resolves to the index \<open>t\<close>, a matrix whose row \<open>t\<close>
  has one entry per catalogue row, and a requested count \<open>N \<ge> 0\<close>, the result table has
  \<open>min (N + 1) (catalogue size)\<close> rows, taken from pairwise distinct catalogue positions
  and sorted by score, best first. No Smithsonian id appears twice when the ids of the
  catalogue are distinct. Row 0 is the target with its self-similarity whenever that is
  strictly greater than every other entry of the row.
\<close>

theorem C1_ranking:
  assumes "resolve_volcano scorer to_string cat my_volcano = Inr t"
    and "t < length M" and "length (M ! t) = length cat" and "0 \<le> N"
  shows "\<exists>out idxs. get_analogies scorer to_string cat my_volcano M N = Inr out
           \<and> printed out = map (\<lambda>i. (cat ! i, M ! t ! i)) idxs
           \<and> length (printed out) = min (nat N + 1) (length cat)
           \<and> sorted (rev (map snd (printed out)))
           \<and> distinct idxs \<and> (\<forall>i \<in> set idxs. i < length cat)
           \<and> (distinct (map smithsonian_id cat) \<longrightarrow>
                distinct (map (\<lambda>r. smithsonian_id (fst r)) (printed out)))
           \<and> ((\<forall>j < length cat. j \<noteq> t \<longrightarrow> M ! t ! j < M ! t ! t) \<longrightarrow>
                hd (printed out) = (cat ! t, M ! t ! t))"
proof -
  define top_idx where "top_idx = rev (drop (length cat - nat (N + 1)) (np_argsort (M ! t)))"
  note tab = get_analogies_table [OF assms, folded top_idx_def]
  from tab(1) obtain out where out: "get_analogies scorer to_string cat my_volcano M N = Inr out"
    and pr: "printed out = map (\<lambda>i. (cat ! i, M ! t ! i)) top_idx"
    by blast
  have len: "length (printed out) = min (nat N + 1) (length cat)"
    using tab(2) pr by simp
  have srt: "sorted (rev (map snd (printed out)))"
    using tab(5) pr by (simp add: comp_def)
  have ids: "distinct (map (\<lambda>r. smithsonian_id (fst r)) (printed out))"
    if "distinct (map smithsonian_id cat)"
    using distinct_ids [OF that tab(3,4)] pr by (simp add: comp_def)
  have first: "hd (printed out) = (cat ! t, M ! t ! t)"
    if "\<forall>j < length cat. j \<noteq> t \<longrightarrow> M ! t ! j < M ! t ! t"
    using tab(6) [OF that] pr by (simp add: hd_map)
  from out pr len srt tab(3,4) ids first show ?thesis by blast
qed


lemma demo_row: "demo_matrix ! 0 = [1, 0.8, 0.3, 0.2]"
  by (simp add: demo_matrix_def)

text \<open>
  C1, as stated, fails: with the default count 10 and a catalogue of four volcanoes the
  table has four rows, not eleven.
\<close>

theorem C1_short_table:
  "get_analogies demo_scorer names_to_string demo_catalogue (Name ''Etna'') demo_matrix 10
     = Inr \<lparr>printed = [(demo_catalogue ! 0, 1), (demo_catalogue ! 1, 0.8),
                       (demo_catalogue ! 2, 0.3), (demo_catalogue ! 3, 0.2)],
             opened = Inr 342090\<rparr>
   \<and> length (printed (projr (get_analogies demo_scorer names_to_string demo_catalogue
         (Name ''Etna'') demo_matrix 10))) \<noteq> 10 + 1"
proof -
  have "get_analogies demo_scorer names_to_string demo_catalogue (Name ''Etna'') demo_matrix 10
     = Inr \<lparr>printed = [(demo_catalogue ! 0, 1), (demo_catalogue ! 1, 0.8),
                       (demo_catalogue ! 2, 0.3), (demo_catalogue ! 3, 0.2)],
             opened = Inr 342090\<rparr>"
    by (simp add: get_analogies_def resolve_volcano_def get_volcano_idx_from_name_def
        match_name_def loc_def index0_def bind_err_def getrow_def demo_matrix_def np_argsort_def slice_from_def iloc_rows_def get_volcano_name_from_idx_def
        iloc_def getidx_def vnum_from_idx_def demo_catalogue_def upt_rec numeral_nat)
  then show ?thesis by simp
qed

theorem C1_ranking_witness:
  "\<exists>out. get_analogies demo_scorer names_to_string demo_catalogue (Name ''Etna'') demo_matrix 2
            = Inr out
        \<and> length (printed out) = 3
        \<and> sorted (rev (map snd (printed out)))
        \<and> distinct (map (\<lambda>r. smithsonian_id (fst r)) (printed out))
        \<and> hd (printed out) = (demo_catalogue ! 0, 1)"
proof -
  have a: "resolve_volcano demo_scorer names_to_string demo_catalogue (Name ''Etna'') = Inr 0"
    by (simp add: resolve_volcano_def demo_idx(1))
  have b: "0 < length demo_matrix" "length (demo_matrix ! 0) = length demo_catalogue"
    by (simp_all add: demo_matrix_def demo_catalogue_def)
  have c: "(0::int) \<le> 2" by simp
  have d: "distinct (map smithsonian_id demo_catalogue)"
    by (simp add: demo_catalogue_def)
  have e: "\<forall>j < length demo_catalogue. j \<noteq> 0 \<longrightarrow> demo_matrix ! 0 ! j < demo_matrix ! 0 ! 0"
    unfolding demo_row by (simp add: demo_catalogue_def less_Suc_eq numeral_nat)
  have m: "min (nat 2 + 1) (length demo_catalogue) = 3" "demo_matrix ! 0 ! 0 = 1"
    by (simp_all add: demo_catalogue_def demo_matrix_def)
  from C1_ranking [OF a b c] d e show ?thesis
    unfolding m by blast
qed

end
